theory Spec2Isabelle
  imports Main
begin

section \<open>Text: Python strings as sequences of code points\<close>

text \<open>
  A Python \<^verbatim>\<open>str\<close> is a sequence of Unicode code points, so a string is a list of
  naturals and \<open>length\<close> is Python's \<^verbatim>\<open>len\<close>. ASCII literals of the source are
  written as HOL strings and lifted by \<open>ascii\<close>; the glyphs of the source are given by
  their code points, read off the bytes of \<^verbatim>\<open>bot.py\<close>.
\<close>

type_synonym ustr = "nat list"

definition ascii :: "string \<Rightarrow> ustr" where
  "ascii s = map of_char s"

definition CHECK_MARK_BUTTON :: nat where "CHECK_MARK_BUTTON = 9989"    \<comment> \<open>U+2705\<close>
definition CHECK_MARK :: nat where "CHECK_MARK = 10003"                  \<comment> \<open>U+2713\<close>
definition BALLOT_BOX_CHECK :: nat where "BALLOT_BOX_CHECK = 9745"       \<comment> \<open>U+2611\<close>
definition VARIATION_SELECTOR_16 :: nat where "VARIATION_SELECTOR_16 = 65039"  \<comment> \<open>U+FE0F\<close>
definition ARROWS_BUTTON :: nat where "ARROWS_BUTTON = 128260"           \<comment> \<open>U+1F504\<close>
definition HOURGLASS :: nat where "HOURGLASS = 9203"                     \<comment> \<open>U+23F3\<close>

text \<open>
  \<^verbatim>\<open>str.isspace\<close> of one code point; \<^verbatim>\<open>str.strip()\<close> and the class \<^verbatim>\<open>\s\<close> of
  \<^verbatim>\<open>re\<close> both use it. The list is the whole of Unicode's white space.
\<close>

definition isspace :: "nat \<Rightarrow> bool" where
  "isspace c =
     ((9 \<le> c \<and> c \<le> 13) \<or> (28 \<le> c \<and> c \<le> 32) \<or> c = 133 \<or> c = 160 \<or> c = 5760
      \<or> (8192 \<le> c \<and> c \<le> 8202) \<or> c = 8232 \<or> c = 8233 \<or> c = 8239 \<or> c = 8287
      \<or> c = 12288)"

definition strip :: "ustr \<Rightarrow> ustr" where
  "strip s = rev (dropWhile isspace (rev (dropWhile isspace s)))"

text \<open>
  \<^verbatim>\<open>str.isalnum\<close> of one code point is a table of the Python runtime, not of this
  repository: it is a parameter \<open>A\<close> of everything below. \<open>ascii_isalnum\<close> is that
  table on ASCII, and \<open>isalnum_ok A\<close> says what the results below need of the table: it is
  the ASCII one below 128 and holds none of the six glyph code points of the source
  (symbols and a combining mark in Unicode).
\<close>

type_synonym chartab = "nat \<Rightarrow> bool"

definition ascii_isalnum :: chartab where
  "ascii_isalnum c = ((48 \<le> c \<and> c \<le> 57) \<or> (65 \<le> c \<and> c \<le> 90) \<or> (97 \<le> c \<and> c \<le> 122))"

fun agrees_upto :: "nat \<Rightarrow> chartab \<Rightarrow> chartab \<Rightarrow> bool" where
  "agrees_upto 0 A B = True"
| "agrees_upto (Suc n) A B = (A n = B n \<and> agrees_upto n A B)"

definition isalnum_ok :: "chartab \<Rightarrow> bool" where
  "isalnum_ok A =
     (agrees_upto 128 A ascii_isalnum
      \<and> \<not> A CHECK_MARK_BUTTON \<and> \<not> A CHECK_MARK \<and> \<not> A BALLOT_BOX_CHECK
      \<and> \<not> A VARIATION_SELECTOR_16 \<and> \<not> A ARROWS_BUTTON \<and> \<not> A HOURGLASS)"

section \<open>The fragment of \<^verbatim>\<open>re\<close> that \<^verbatim>\<open>parse_message\<close> uses\<close>

text \<open>
  The patterns of the source are built from literal characters, \<^verbatim>\<open>\b\<close>,
  \<^verbatim>\<open>\s*\<close>, \<^verbatim>\<open>\s+\<close>, \<^verbatim>\<open>.+\<close>, concatenation, alternation and \<^verbatim>\<open>?\<close>. Capture
  groups are not read by the source (the replacement is the empty string and only the
  truth value of \<^verbatim>\<open>re.search\<close> is used), so a group is its body.
\<close>

datatype cset = WS | ANY

datatype regex =
    Eps
  | Chr nat
  | Bnd
  | Star cset
  | Plus cset
  | Cat regex regex
  | Or regex regex
  | Opt regex

fun in_cset :: "cset \<Rightarrow> nat \<Rightarrow> bool" where
  "in_cset WS c = isspace c"
| "in_cset ANY c = (c \<noteq> 10)"

text \<open>
  Every call of the source passes \<^verbatim>\<open>re.IGNORECASE\<close>. The letters of the patterns
  are lower-case ASCII; such a letter matches itself, its upper case, and the code points
  that lower-case or case-fold to it: U+0130 and U+0131 for \<^verbatim>\<open>i\<close>, U+017F for
  \<^verbatim>\<open>s\<close>, U+212A for \<^verbatim>\<open>k\<close>. The space and the glyphs have no case and match
  themselves only.
\<close>

definition ci_eq :: "nat \<Rightarrow> nat \<Rightarrow> bool" where
  "ci_eq p c =
     (c = p \<or> (97 \<le> p \<and> p \<le> 122 \<and> c + 32 = p)
      \<or> (p = 105 \<and> (c = 304 \<or> c = 305)) \<or> (p = 115 \<and> c = 383) \<or> (p = 107 \<and> c = 8490))"

definition isword :: "chartab \<Rightarrow> nat \<Rightarrow> bool" where
  "isword A c = (A c \<or> c = 95)"

text \<open>
  A position in the subject is the code point before it (\<open>None\<close> at the start) and
  the rest of the subject. \<^verbatim>\<open>\b\<close> holds where exactly one of the two neighbours is a
  word character; the start and the end of the subject count as non-word.
\<close>

type_synonym pos = "nat option \<times> ustr"

fun word_before :: "chartab \<Rightarrow> nat option \<Rightarrow> bool" where
  "word_before A None = False"
| "word_before A (Some c) = isword A c"

fun word_after :: "chartab \<Rightarrow> ustr \<Rightarrow> bool" where
  "word_after A [] = False"
| "word_after A (c # s) = isword A c"

definition at_boundary :: "chartab \<Rightarrow> pos \<Rightarrow> bool" where
  "at_boundary A st = (word_before A (fst st) \<noteq> word_after A (snd st))"

text \<open>
  The matcher is the backtracking one of \<^verbatim>\<open>re\<close>, with the rest of the pattern as a
  continuation \<open>k\<close>: alternatives are tried left to right, \<^verbatim>\<open>?\<close>, \<^verbatim>\<open>*\<close> and
  \<^verbatim>\<open>+\<close> are greedy and give back what the continuation refuses.
\<close>

fun star :: "cset \<Rightarrow> pos \<Rightarrow> (pos \<Rightarrow> 'a option) \<Rightarrow> 'a option" where
  "star cs (p, []) k = k (p, [])"
| "star cs (p, c # s) k =
     (if in_cset cs c
      then (case star cs (Some c, s) k of Some r \<Rightarrow> Some r | None \<Rightarrow> k (p, c # s))
      else k (p, c # s))"

fun rmatch :: "chartab \<Rightarrow> regex \<Rightarrow> pos \<Rightarrow> (pos \<Rightarrow> 'a option) \<Rightarrow> 'a option" where
  "rmatch A Eps st k = k st"
| "rmatch A (Chr a) (p, []) k = None"
| "rmatch A (Chr a) (p, c # s) k = (if ci_eq a c then k (Some c, s) else None)"
| "rmatch A Bnd st k = (if at_boundary A st then k st else None)"
| "rmatch A (Star cs) st k = star cs st k"
| "rmatch A (Plus cs) (p, []) k = None"
| "rmatch A (Plus cs) (p, c # s) k = (if in_cset cs c then star cs (Some c, s) k else None)"
| "rmatch A (Cat a b) st k = rmatch A a st (\<lambda>st'. rmatch A b st' k)"
| "rmatch A (Or a b) st k =
     (case rmatch A a st k of Some r \<Rightarrow> Some r | None \<Rightarrow> rmatch A b st k)"
| "rmatch A (Opt a) st k =
     (case rmatch A a st k of Some r \<Rightarrow> Some r | None \<Rightarrow> k st)"

definition match_at :: "chartab \<Rightarrow> regex \<Rightarrow> pos \<Rightarrow> pos option" where
  "match_at A r st = rmatch A r st Some"

text \<open>\<^verbatim>\<open>re.search\<close>, as the source uses it: is there a match at some start position?\<close>

fun search_from :: "chartab \<Rightarrow> regex \<Rightarrow> nat option \<Rightarrow> ustr \<Rightarrow> bool" where
  "search_from A r p [] = (case match_at A r (p, []) of Some m \<Rightarrow> True | None \<Rightarrow> False)"
| "search_from A r p (c # s) =
     (case match_at A r (p, c # s) of Some m \<Rightarrow> True | None \<Rightarrow> search_from A r (Some c) s)"

definition re_search :: "chartab \<Rightarrow> regex \<Rightarrow> ustr \<Rightarrow> bool" where
  "re_search A r text = search_from A r None text"

text \<open>
  \<^verbatim>\<open>re.sub(pattern, '', text)\<close>: the leftmost match is dropped and the scan goes on
  where it ended, with the last dropped code point as the left neighbour; where there is
  no match (or an empty one, which replaces nothing) one code point is copied.
\<close>

function sub_from :: "chartab \<Rightarrow> regex \<Rightarrow> nat option \<Rightarrow> ustr \<Rightarrow> ustr" where
  "sub_from A r p [] = []"
| "sub_from A r p (c # s) =
     (case match_at A r (p, c # s) of
        None \<Rightarrow> c # sub_from A r (Some c) s
      | Some (p', s') \<Rightarrow>
          if length s' \<le> length s then sub_from A r p' s'
          else c # sub_from A r (Some c) s)"
  by pat_completeness auto
termination
  by (relation "measure (\<lambda>(A, r, p, s). length s)") auto

definition re_sub :: "chartab \<Rightarrow> regex \<Rightarrow> ustr \<Rightarrow> ustr" where
  "re_sub A r text = sub_from A r None text"

section \<open>TaskParser.parse_message\<close>

fun str :: "ustr \<Rightarrow> regex" where
  "str [] = Eps"
| "str (c # cs) = Cat (Chr c) (str cs)"

fun seq :: "regex list \<Rightarrow> regex" where
  "seq [] = Eps"
| "seq (r # rs) = Cat r (seq rs)"

fun alt :: "regex \<Rightarrow> regex list \<Rightarrow> regex" where
  "alt r [] = r"
| "alt r (q # qs) = Or r (alt q qs)"

text \<open>
  \<^verbatim>\<open>completed?\<close> is \<^verbatim>\<open>complete\<close> and an optional \<^verbatim>\<open>d\<close>; \<^verbatim>\<open>finished?\<close> is
  \<^verbatim>\<open>finishe\<close> and an optional \<^verbatim>\<open>d\<close>: the \<^verbatim>\<open>?\<close> binds the one character before
  it.
\<close>

definition completed_opt :: regex where
  "completed_opt = Cat (str (ascii ''complete'')) (Opt (Chr (of_char CHR ''d'')))"

definition finished_opt :: regex where
  "finished_opt = Cat (str (ascii ''finishe'')) (Opt (Chr (of_char CHR ''d'')))"

definition done_patterns :: "regex list" where
  "done_patterns =
     [seq [Bnd, alt completed_opt [finished_opt, str (ascii ''done'')], Bnd],
      seq [Bnd, alt (Chr CHECK_MARK_BUTTON)
                  [Chr CHECK_MARK, str [BALLOT_BOX_CHECK, VARIATION_SELECTOR_16]], Bnd],
      seq [Bnd, completed_opt, Plus WS, Plus ANY],
      seq [Bnd, finished_opt, Plus WS, Plus ANY],
      seq [Bnd, str (ascii ''done''), Plus WS, Plus ANY]]"

definition progress_patterns :: "regex list" where
  "progress_patterns =
     [seq [Bnd, alt (str (ascii ''working on''))
                  [str (ascii ''started''), str (ascii ''begun''), str (ascii ''in progress'')],
           Bnd],
      seq [Bnd, alt (Chr ARROWS_BUTTON) [Chr HOURGLASS], Bnd],
      seq [Bnd, str (ascii ''working on''), Plus WS, Plus ANY],
      seq [Bnd, str (ascii ''started''), Plus WS, Plus ANY]]"

text \<open>The two patterns of the \<^verbatim>\<open>re.sub\<close> calls.\<close>

definition done_removal :: regex where
  "done_removal =
     seq [Bnd,
          alt completed_opt
            [finished_opt, str (ascii ''done''), Chr CHECK_MARK_BUTTON, Chr CHECK_MARK,
             str [BALLOT_BOX_CHECK, VARIATION_SELECTOR_16]],
          Star WS]"

definition progress_removal :: regex where
  "progress_removal =
     seq [Bnd,
          alt (str (ascii ''working on''))
            [str (ascii ''started''), str (ascii ''begun''), str (ascii ''in progress''),
             Chr ARROWS_BUTTON, Chr HOURGLASS],
          Star WS]"

text \<open>
  The \<^verbatim>\<open>for\<close> loops return at the first pattern that \<^verbatim>\<open>re.search\<close> finds, with a
  result that does not depend on which pattern it was.
\<close>

fun any_search :: "chartab \<Rightarrow> regex list \<Rightarrow> ustr \<Rightarrow> bool" where
  "any_search A [] text = False"
| "any_search A (r # rs) text = (re_search A r text \<or> any_search A rs text)"

definition STATUS_DONE :: ustr where
  "STATUS_DONE = ascii ''Done''"

definition STATUS_IN_PROGRESS :: ustr where
  "STATUS_IN_PROGRESS = ascii ''In Progress''"

definition parse_message :: "chartab \<Rightarrow> ustr \<Rightarrow> ustr \<times> ustr" where
  "parse_message A text0 =
     (let text = strip text0 in
      if any_search A done_patterns text
      then (strip (re_sub A done_removal text), STATUS_DONE)
      else if any_search A progress_patterns text
      then (strip (re_sub A progress_removal text), STATUS_IN_PROGRESS)
      else (text, STATUS_DONE))"

section \<open>The words of the patterns\<close>

text \<open>
  For stating what the pattern lists find without running the matcher: \<open>prefix_ci w s\<close>
  says that \<open>s\<close> starts with the word \<open>w\<close> in some casing, \<open>occurs_ci w s\<close> that
  \<open>w\<close> starts somewhere in \<open>s\<close>. The tokens are what every match of a pattern of the
  list starts with; the keywords are the whole words that the first done pattern and the
  first in-progress pattern accept. \<open>last_opt p s\<close> is the left neighbour after reading
  \<open>s\<close> from a position with left neighbour \<open>p\<close>.
\<close>

fun prefix_ci :: "ustr \<Rightarrow> ustr \<Rightarrow> bool" where
  "prefix_ci [] s = True"
| "prefix_ci (a # w) [] = False"
| "prefix_ci (a # w) (c # s) = (ci_eq a c \<and> prefix_ci w s)"

fun occurs_ci :: "ustr \<Rightarrow> ustr \<Rightarrow> bool" where
  "occurs_ci w [] = prefix_ci w []"
| "occurs_ci w (c # s) = (prefix_ci w (c # s) \<or> occurs_ci w s)"

fun last_opt :: "nat option \<Rightarrow> ustr \<Rightarrow> nat option" where
  "last_opt p [] = p"
| "last_opt p (c # s) = last_opt (Some c) s"

definition done_tokens :: "ustr list" where
  "done_tokens =
     [ascii ''complete'', ascii ''finishe'', ascii ''done'', [CHECK_MARK_BUTTON], [CHECK_MARK],
      [BALLOT_BOX_CHECK, VARIATION_SELECTOR_16]]"

definition progress_tokens :: "ustr list" where
  "progress_tokens =
     [ascii ''working on'', ascii ''started'', ascii ''begun'', ascii ''in progress'',
      [ARROWS_BUTTON], [HOURGLASS]]"

fun starts_any :: "ustr list \<Rightarrow> ustr \<Rightarrow> bool" where
  "starts_any [] s = False"
| "starts_any (w # ws) s = (prefix_ci w s \<or> starts_any ws s)"

fun occurs_any :: "ustr list \<Rightarrow> ustr \<Rightarrow> bool" where
  "occurs_any [] s = False"
| "occurs_any (w # ws) s = (occurs_ci w s \<or> occurs_any ws s)"

definition done_keywords :: "ustr list" where
  "done_keywords =
     [ascii ''completed'', ascii ''complete'', ascii ''finished'', ascii ''finishe'',
      ascii ''done'']"

definition progress_keywords :: "ustr list" where
  "progress_keywords =
     [ascii ''working on'', ascii ''started'', ascii ''begun'', ascii ''in progress'']"

section \<open>GoogleSheetsManager\<close>

text \<open>
  The worksheet object of \<^verbatim>\<open>gspread\<close> belongs to an external service. It is taken
  as a record of the three methods the source calls, over a type \<open>'w\<close> of states of the
  remote sheet: a read returns a value or raises, \<^verbatim>\<open>update\<close> leaves the sheet in
  some state and may raise. \<open>exn\<close> stands for the instances of \<^verbatim>\<open>Exception\<close>, which
  is all that \<^verbatim>\<open>except Exception\<close> catches.
\<close>

datatype exn = AttributeError | Raised string

record 'w worksheet =
  row_values :: "nat \<Rightarrow> 'w \<Rightarrow> exn + ustr list"
  get_all_values :: "'w \<Rightarrow> exn + ustr list list"
  update :: "ustr \<Rightarrow> ustr list list \<Rightarrow> 'w \<Rightarrow> exn option \<times> 'w"

text \<open>
  What the process does besides returning: the records it hands to \<^verbatim>\<open>logger\<close> and
  the replies it sends. Each constructor stands for one message text of the source.
\<close>

datatype log_record =
    Info_connected                \<comment> \<open>Google Sheets connected successfully!\<close>
  | Error_connect exn             \<comment> \<open>Failed to connect to Google Sheets: e\<close>
  | Info_headers                  \<comment> \<open>Headers set up in Google Sheet\<close>
  | Error_headers exn             \<comment> \<open>Error setting up headers: e\<close>
  | Info_task_added ustr          \<comment> \<open>Task added to Google Sheet: task_text\<close>
  | Error_add_task exn            \<comment> \<open>Error adding task to Google Sheet: e\<close>
  | Error_handling exn            \<comment> \<open>Error handling message: e\<close>

datatype reply =
    More_details                  \<comment> \<open>Could you provide more details about your task?\<close>
  | Task_recorded ustr ustr       \<comment> \<open>Task Recorded! with the task and the status\<close>
  | Save_issue                    \<comment> \<open>Sorry, there was an issue saving your task. ...\<close>
  | Went_wrong                    \<comment> \<open>Something went wrong. Please try again!\<close>

record 'w io =
  remote :: 'w
  logged :: "log_record list"
  sent :: "reply list"

definition log :: "log_record \<Rightarrow> 'w io \<Rightarrow> 'w io" where
  "log l \<sigma> = \<sigma>\<lparr>logged := logged \<sigma> @ [l]\<rparr>"

definition reply_text :: "reply \<Rightarrow> 'w io \<Rightarrow> 'w io" where
  "reply_text m \<sigma> = \<sigma>\<lparr>sent := sent \<sigma> @ [m]\<rparr>"

text \<open>\<^verbatim>\<open>str(n)\<close> of a natural number, as the f-string of the range prints it.\<close>

fun str_nat :: "nat \<Rightarrow> ustr" where
  "str_nat n = (if n < 10 then [48 + n] else str_nat (n div 10) @ [48 + n mod 10])"

declare str_nat.simps [simp del]

text \<open>
  \<^verbatim>\<open>datetime.now()\<close> is an input: the wall clock read at the call. \<^verbatim>\<open>%m\<close>,
  \<^verbatim>\<open>%d\<close>, \<^verbatim>\<open>%H\<close> and \<^verbatim>\<open>%M\<close> print two digits, \<^verbatim>\<open>%Y\<close> prints the year.
\<close>

record datetime =
  year :: nat
  month :: nat
  day :: nat
  hour :: nat
  minute :: nat

definition zero_pad2 :: "nat \<Rightarrow> ustr" where
  "zero_pad2 n = (if n < 10 then 48 # str_nat n else str_nat n)"

definition date_str :: "datetime \<Rightarrow> ustr" where
  "date_str now = str_nat (year now) @ ascii ''-'' @ zero_pad2 (month now) @ ascii ''-''
     @ zero_pad2 (day now)"

definition time_str :: "datetime \<Rightarrow> ustr" where
  "time_str now = zero_pad2 (hour now) @ ascii '':'' @ zero_pad2 (minute now)"

definition HEADERS :: "ustr list" where
  "HEADERS = [ascii ''Date'', ascii ''Time'', ascii ''Task'', ascii ''Status'', ascii ''Notes'']"

definition setup_headers :: "'w worksheet option \<Rightarrow> 'w io \<Rightarrow> 'w io" where
  "setup_headers sheet \<sigma> =
     (case sheet of
        None \<Rightarrow> log (Error_headers AttributeError) \<sigma>
      | Some ws \<Rightarrow>
          (case row_values ws 1 (remote \<sigma>) of
             Inl e \<Rightarrow> log (Error_headers e) \<sigma>
           | Inr headers \<Rightarrow>
               if headers = [] \<or> length headers < 4
               then (case update ws (ascii ''A1:E1'') [HEADERS] (remote \<sigma>) of
                       (Some e, w') \<Rightarrow> log (Error_headers e) (\<sigma>\<lparr>remote := w'\<rparr>)
                     | (None, w') \<Rightarrow> log Info_headers (\<sigma>\<lparr>remote := w'\<rparr>))
               else \<sigma>))"

text \<open>
  \<^verbatim>\<open>setup_sheet\<close>: \<open>connect\<close> is the outcome of reading the credentials, authorising
  and opening the sheet, which either raises or yields the worksheet.
\<close>

definition setup_sheet :: "exn + 'w worksheet \<Rightarrow> 'w io \<Rightarrow> 'w worksheet option \<times> 'w io" where
  "setup_sheet connect \<sigma> =
     (case connect of
        Inl e \<Rightarrow> (None, log (Error_connect e) \<sigma>)
      | Inr ws \<Rightarrow> (Some ws, log Info_connected (setup_headers (Some ws) \<sigma>)))"

definition row_range :: "nat \<Rightarrow> ustr" where
  "row_range next_row = ascii ''A'' @ str_nat next_row @ ascii '':E'' @ str_nat next_row"

text \<open>
  \<^verbatim>\<open>add_task\<close>: \<open>add_task_try\<close> is the body of the \<^verbatim>\<open>try\<close>, whose outcome is
  \<open>Inl e\<close> where a call raises \<open>e\<close>; \<open>add_task\<close> adds the \<^verbatim>\<open>except\<close> clause. Its
  own outcome is \<open>Inl e\<close> for an exception that leaves the method, \<open>Inr b\<close> for the
  returned boolean.
\<close>

definition add_task_try ::
  "'w worksheet option \<Rightarrow> datetime \<Rightarrow> ustr \<Rightarrow> ustr \<Rightarrow> 'w io \<Rightarrow> (exn + bool) \<times> 'w io" where
  "add_task_try sheet now task_text status \<sigma> =
     (case sheet of
        None \<Rightarrow> (Inr False, \<sigma>)
      | Some ws \<Rightarrow>
          (case get_all_values ws (remote \<sigma>) of
             Inl e \<Rightarrow> (Inl e, \<sigma>)
           | Inr vals \<Rightarrow>
               (let next_row = length vals + 1 in
                case update ws (row_range next_row)
                       [[date_str now, time_str now, task_text, status, []]] (remote \<sigma>) of
                  (Some e, w') \<Rightarrow> (Inl e, \<sigma>\<lparr>remote := w'\<rparr>)
                | (None, w') \<Rightarrow> (Inr True, log (Info_task_added task_text) (\<sigma>\<lparr>remote := w'\<rparr>)))))"

definition add_task ::
  "'w worksheet option \<Rightarrow> datetime \<Rightarrow> ustr \<Rightarrow> ustr \<Rightarrow> 'w io \<Rightarrow> (exn + bool) \<times> 'w io" where
  "add_task sheet now task_text status \<sigma> =
     (case add_task_try sheet now task_text status \<sigma> of
        (Inl e, \<sigma>') \<Rightarrow> (Inr False, log (Error_add_task e) \<sigma>')
      | (Inr b, \<sigma>') \<Rightarrow> (Inr b, \<sigma>'))"

section \<open>handle_message\<close>


section \<open>Worksheets to run the manager on\<close>

text \<open>
  Worksheets for running the definitions: \<open>mem_sheet\<close> keeps the rows in a list
  and stores the first row of the values at the row number that the range names;
  \<open>down_sheet\<close> raises at every call; \<open>readonly_sheet\<close> reads like \<open>mem_sheet\<close>
  and raises at every \<^verbatim>\<open>update\<close>.
\<close>

definition digits_val :: "ustr \<Rightarrow> nat" where
  "digits_val s = foldl (\<lambda>a c. 10 * a + (c - 48)) 0 s"

definition is_digit :: "nat \<Rightarrow> bool" where
  "is_digit c = (48 \<le> c \<and> c \<le> 57)"

definition put_row :: "nat \<Rightarrow> ustr list \<Rightarrow> ustr list list \<Rightarrow> ustr list list" where
  "put_row n r w = (w @ replicate (n - length w) [])[n - 1 := r]"

definition mem_sheet :: "(ustr list list) worksheet" where
  "mem_sheet =
     \<lparr>row_values = (\<lambda>n w. Inr (if 1 \<le> n \<and> n \<le> length w then w ! (n - 1) else [])),
      get_all_values = (\<lambda>w. Inr w),
      update = (\<lambda>rng vals w.
         (None, case vals of [] \<Rightarrow> w
                | r # rs \<Rightarrow> put_row (digits_val (takeWhile is_digit (drop 1 rng))) r w))\<rparr>"

definition down_sheet :: "(ustr list list) worksheet" where
  "down_sheet =
     \<lparr>row_values = (\<lambda>n w. Inl (Raised ''APIError'')),
      get_all_values = (\<lambda>w. Inl (Raised ''APIError'')),
      update = (\<lambda>rng vals w. (Some (Raised ''APIError''), w))\<rparr>"

definition readonly_sheet :: "(ustr list list) worksheet" where
  "readonly_sheet = mem_sheet\<lparr>update := (\<lambda>rng vals w. (Some (Raised ''APIError''), w))\<rparr>"

definition io0 :: "ustr list list \<Rightarrow> (ustr list list) io" where
  "io0 w = \<lparr>remote = w, logged = [], sent = []\<rparr>"

definition noon :: datetime where
  "noon = \<lparr>year = 2025, month = 5, day = 21, hour = 9, minute = 5\<rparr>"

definition after_x :: "(ustr list list) io" where
  "after_x =
     \<lparr>remote = [HEADERS, [ascii ''2025-05-21'', ascii ''09:05'', ascii ''x'', STATUS_DONE, []]],
      logged = [Info_task_added (ascii ''x'')], sent = []\<rparr>"

definition twelve_rows :: "ustr list list" where
  "twelve_rows =
     [HEADERS, [ascii ''a''], [ascii ''b''], [ascii ''c''], [ascii ''d''], [ascii ''e''],
      [ascii ''f''], [ascii ''g''], [ascii ''h''], [ascii ''i''], [ascii ''j''], [ascii ''k'']]"

definition after_13 :: "(ustr list list) io" where
  "after_13 =
     \<lparr>remote = twelve_rows
        @ [[ascii ''2025-05-21'', ascii ''09:05'', ascii ''x'', STATUS_DONE, []]],
      logged = [Info_task_added (ascii ''x'')], sent = []\<rparr>"

text \<open>
  Reading a printed date or time back: \<open>has_shape f s\<close> holds when \<open>s\<close> has a digit
  at every \<^verbatim>\<open>d\<close> of \<open>f\<close> and the character of \<open>f\<close> elsewhere; \<open>clock_ok\<close> is the
  range of the wall clock, with a year of four digits.
\<close>

fun has_shape :: "string \<Rightarrow> ustr \<Rightarrow> bool" where
  "has_shape [] [] = True"
| "has_shape (f # fs) (c # cs) =
     ((if f = CHR ''d'' then is_digit c else c = of_char f) \<and> has_shape fs cs)"
| "has_shape [] (c # cs) = False"
| "has_shape (f # fs) [] = False"

definition clock_ok :: "datetime \<Rightarrow> bool" where
  "clock_ok now =
     (1000 \<le> year now \<and> year now \<le> 9999 \<and> 1 \<le> month now \<and> month now \<le> 12
      \<and> 1 \<le> day now \<and> day now \<le> 31 \<and> hour now \<le> 23 \<and> minute now \<le> 59)"

section \<open>Running the classifier\<close>

lemma agrees_uptoD: "agrees_upto n A B \<Longrightarrow> c < n \<Longrightarrow> A c = B c"
  by (induction n) (auto simp: less_Suc_eq)

lemma agrees_upto_refl: "agrees_upto n A A"
  by (induction n) auto

lemma isalnum_ok_ascii: "isalnum_ok A \<Longrightarrow> c < 128 \<Longrightarrow> A c = ascii_isalnum c"
  unfolding isalnum_ok_def by (blast dest: agrees_uptoD)

lemmas glyph_defs = CHECK_MARK_BUTTON_def CHECK_MARK_def BALLOT_BOX_CHECK_def
  VARIATION_SELECTOR_16_def ARROWS_BUTTON_def HOURGLASS_def

lemma isalnum_ok_glyphs:
  "isalnum_ok A \<Longrightarrow>
     \<not> A 9989 \<and> \<not> A 10003 \<and> \<not> A 9745 \<and> \<not> A 65039 \<and> \<not> A 128260 \<and> \<not> A 9203"
  unfolding isalnum_ok_def by (simp add: glyph_defs)

lemma isalnum_ok_ascii_isalnum: "isalnum_ok ascii_isalnum"
  unfolding isalnum_ok_def
  by (simp add: agrees_upto_refl) (simp add: ascii_isalnum_def glyph_defs)

lemmas run_defs = parse_message_def strip_def re_search_def re_sub_def match_at_def
  done_patterns_def progress_patterns_def done_removal_def progress_removal_def
  completed_opt_def finished_opt_def STATUS_DONE_def STATUS_IN_PROGRESS_def ascii_def
  glyph_defs ci_eq_def isspace_def isword_def at_boundary_def ascii_isalnum_def




text \<open>The order of the two loops: a text that the done list finds is \<^verbatim>\<open>Done\<close>,
  whatever the in-progress list would find in it.\<close>

lemma done_list_first:
  "any_search A done_patterns (strip text) \<Longrightarrow> snd (parse_message A text) = STATUS_DONE"
  by (simp add: parse_message_def)

lemma progress_list_second:
  "\<not> any_search A done_patterns (strip text) \<Longrightarrow> any_search A progress_patterns (strip text)
     \<Longrightarrow> snd (parse_message A text) = STATUS_IN_PROGRESS"
  by (simp add: parse_message_def)

text \<open>The first two examples of the help text that \<^verbatim>\<open>start\<close> sends.\<close>

lemma working_on_project_planning:
  assumes "isalnum_ok A"
  shows "parse_message A (ascii ''Working on project planning'')
         = (ascii ''project planning'', STATUS_IN_PROGRESS)"
  by (simp add: run_defs isalnum_ok_ascii[OF assms])

lemma completed_the_sales_report:
  assumes "isalnum_ok A"
  shows "parse_message A (ascii ''Completed the sales report'')
         = (ascii ''the sales report'', STATUS_DONE)"
  by (simp add: run_defs isalnum_ok_ascii[OF assms])

section \<open>What the pattern lists find\<close>

lemma rmatch_str:
  "rmatch A (str w) (p, s) k =
     (if prefix_ci w s then k (last_opt p (take (length w) s), drop (length w) s) else None)"
proof (induction w arbitrary: p s)
  case Nil
  show ?case by simp
next
  case (Cons a w)
  show ?case
  proof (cases s)
    case Nil
    then show ?thesis by simp
  next
    case (Cons c s')
    then show ?thesis by (simp add: Cons.IH)
  qed
qed

lemma rmatch_Chr:
  "rmatch A (Chr a) (p, s) k =
     (if prefix_ci [a] s then k (last_opt p (take 1 s), drop 1 s) else None)"
  by (cases s) simp_all

lemma occurs_ci_append: "prefix_ci w s \<Longrightarrow> occurs_ci w (pre @ s)"
  by (induction pre) (cases s; simp)+

lemma search_from_sound:
  "search_from A r p s \<Longrightarrow> \<exists>pre p' s' m. s = pre @ s' \<and> match_at A r (p', s') = Some m"
proof (induction s arbitrary: p)
  case Nil
  then show ?case by (auto split: option.splits)
next
  case (Cons c s)
  show ?case
  proof (cases "match_at A r (p, c # s)")
    case None
    with Cons.prems have "search_from A r (Some c) s" by simp
    from Cons.IH[OF this] obtain pre p' s' m where "s = pre @ s'" "match_at A r (p', s') = Some m"
      by blast
    then have "c # s = (c # pre) @ s'" by simp
    with \<open>match_at A r (p', s') = Some m\<close> show ?thesis by blast
  next
    case (Some m)
    then have "c # s = [] @ (c # s) \<and> match_at A r (p, c # s) = Some m" by simp
    then show ?thesis by blast
  qed
qed

lemma search_from_complete:
  "match_at A r (last_opt p pre, s) = Some m \<Longrightarrow> search_from A r p (pre @ s)"
proof (induction pre arbitrary: p)
  case Nil
  then show ?case by (cases s) simp_all
next
  case (Cons c pre)
  then show ?case by (simp split: option.splits)
qed

lemma starts_any_occurs: "starts_any ws s \<Longrightarrow> occurs_any ws (pre @ s)"
  by (induction ws) (auto simp: occurs_ci_append)

lemma done_match_starts:
  assumes "r \<in> set done_patterns" and "match_at A r (p, s) = Some m"
  shows "starts_any done_tokens s"
  using assms unfolding done_patterns_def done_tokens_def match_at_def completed_opt_def
    finished_opt_def
  by (auto simp: rmatch_str rmatch_Chr simp del: str.simps split: if_splits option.splits)

lemma progress_match_starts:
  assumes "r \<in> set progress_patterns" and "match_at A r (p, s) = Some m"
  shows "starts_any progress_tokens s"
  using assms unfolding progress_patterns_def progress_tokens_def match_at_def
  by (auto simp: rmatch_str rmatch_Chr simp del: str.simps split: if_splits option.splits)

lemma any_search_sound:
  assumes "any_search A rs t"
    and "\<And>r p s m. r \<in> set rs \<Longrightarrow> match_at A r (p, s) = Some m \<Longrightarrow> starts_any ws s"
  shows "occurs_any ws t"
  using assms
proof (induction rs)
  case Nil
  then show ?case by simp
next
  case (Cons r rs)
  show ?case
  proof (cases "re_search A r t")
    case True
    then obtain pre p' s' m where "t = pre @ s'" "match_at A r (p', s') = Some m"
      unfolding re_search_def by (blast dest: search_from_sound)
    with Cons.prems(2)[of r p' s' m] show ?thesis by (simp add: starts_any_occurs)
  next
    case False
    with Cons.prems(1) have rest: "any_search A rs t" by simp
    show ?thesis
    proof (rule Cons.IH)
      show "any_search A rs t" by (rule rest)
    next
      fix r' p s m
      assume "r' \<in> set rs" and "match_at A r' (p, s) = Some m"
      then show "starts_any ws s" using Cons.prems(2)[of r' p s m] by simp
    qed
  qed
qed

text \<open>
  A text in which none of the tokens occurs, in any casing and at any place, is matched
  by neither list, for every character table.
\<close>

lemma no_token_no_match:
  assumes "\<not> occurs_any done_tokens t" and "\<not> occurs_any progress_tokens t"
  shows "\<not> any_search A done_patterns t \<and> \<not> any_search A progress_patterns t"
proof
  show "\<not> any_search A done_patterns t"
    using assms(1) any_search_sound[of A done_patterns t done_tokens]
    by (blast intro: done_match_starts)
  show "\<not> any_search A progress_patterns t"
    using assms(2) any_search_sound[of A progress_patterns t progress_tokens]
    by (blast intro: progress_match_starts)
qed

text \<open>
  The other direction, for the done keywords: a text that holds one of them as a whole
  word (no word character before it and none after it), in any casing, is found by the
  first done pattern and so classified \<^verbatim>\<open>Done\<close>, whatever else it holds.
\<close>

lemma prefix_ci_append: "list_all2 ci_eq kw w \<Longrightarrow> prefix_ci kw (w @ post)"
  by (induction kw w rule: list_all2_induct) simp_all

lemma str_match:
  assumes "list_all2 ci_eq kw w"
  shows "rmatch A (str kw) (q, w @ post) k = k (last_opt q w, post)"
proof -
  from assms have "length kw = length w" by (rule list_all2_lengthD)
  with assms show ?thesis by (simp add: rmatch_str prefix_ci_append)
qed

lemma last_opt_snoc: "last_opt q (w @ [x]) = Some x"
  by (induction w arbitrary: q) simp_all

lemma word_before_last_opt: "w \<noteq> [] \<Longrightarrow> word_before A (last_opt q w) = isword A (last w)"
  by (induction w arbitrary: q) auto

text \<open>The rest of the first pattern after its alternation: the closing \<^verbatim>\<open>\b\<close>.\<close>

lemma closing_boundary:
  assumes "w \<noteq> []" and "isword A (last w)" and "\<not> word_after A post"
  shows "rmatch A (seq [Bnd]) (last_opt q w, post) Some = Some (last_opt q w, post)"
  using assms by (simp add: at_boundary_def word_before_last_opt)

lemma opt_d_match:
  assumes base: "list_all2 ci_eq base w1"
    and w: "w = w1 \<or> (\<exists>x. w = w1 @ [x] \<and> ci_eq 100 x)"
    and k: "k (last_opt q w, post) = Some m"
  shows "rmatch A (Cat (str base) (Opt (Chr 100))) (q, w @ post) k \<noteq> None"
  using w
proof
  assume "w = w1"
  with base k show ?thesis by (simp add: str_match split: option.splits)
next
  assume "\<exists>x. w = w1 @ [x] \<and> ci_eq 100 x"
  then obtain x where x: "w = w1 @ [x]" "ci_eq 100 x" by blast
  from base have "rmatch A (str base) (q, w1 @ (x # post)) (\<lambda>st'. rmatch A (Opt (Chr 100)) st' k)
      = rmatch A (Opt (Chr 100)) (last_opt q w1, x # post) k"
    by (rule str_match)
  moreover from x k have "rmatch A (Opt (Chr 100)) (last_opt q w1, x # post) k = Some m"
    by (simp add: last_opt_snoc)
  ultimately show ?thesis using x by simp
qed

lemma Or_left: "rmatch A a st k \<noteq> None \<Longrightarrow> rmatch A (Or a b) st k \<noteq> None"
  by (auto split: option.splits)

lemma Or_right: "rmatch A b st k \<noteq> None \<Longrightarrow> rmatch A (Or a b) st k \<noteq> None"
  by (auto split: option.splits)

lemma of_char_d: "of_char CHR ''d'' = (100::nat)"
  by simp

lemma keyword_shape:
  assumes "kw \<in> set done_keywords" and "list_all2 ci_eq kw w"
  shows "(\<exists>w1. list_all2 ci_eq (ascii ''complete'') w1 \<and> (w = w1 \<or> (\<exists>x. w = w1 @ [x] \<and> ci_eq 100 x)))
       \<or> (\<exists>w1. list_all2 ci_eq (ascii ''finishe'') w1 \<and> (w = w1 \<or> (\<exists>x. w = w1 @ [x] \<and> ci_eq 100 x)))
       \<or> list_all2 ci_eq (ascii ''done'') w"
proof -
  have c: "ascii ''completed'' = ascii ''complete'' @ [100]"
    and f: "ascii ''finished'' = ascii ''finishe'' @ [100]"
    by (simp_all add: ascii_def)
  from assms(1) consider "kw = ascii ''completed''" | "kw = ascii ''complete''"
    | "kw = ascii ''finished''" | "kw = ascii ''finishe''" | "kw = ascii ''done''"
    by (auto simp: done_keywords_def)
  then show ?thesis
  proof cases
    case 1
    with assms(2) show ?thesis
      unfolding c by (auto simp: list_all2_append1 list_all2_Cons1)
  next
    case 2
    with assms(2) show ?thesis by blast
  next
    case 3
    with assms(2) show ?thesis
      unfolding f by (auto simp: list_all2_append1 list_all2_Cons1)
  next
    case 4
    with assms(2) show ?thesis by blast
  next
    case 5
    with assms(2) show ?thesis by blast
  qed
qed

lemma keyword_ends:
  assumes A: "isalnum_ok A" and "kw \<in> set done_keywords" and "list_all2 ci_eq kw w"
  shows "w \<noteq> [] \<and> isword A (hd w) \<and> isword A (last w)"
proof -
  have letters: "\<And>x. ci_eq 99 x \<or> ci_eq 100 x \<or> ci_eq 101 x \<or> ci_eq 102 x \<Longrightarrow> isword A x"
    by (auto simp: ci_eq_def isword_def isalnum_ok_ascii[OF A] ascii_isalnum_def)
  from assms(2) consider "kw = ascii ''completed''" | "kw = ascii ''complete''"
    | "kw = ascii ''finished''" | "kw = ascii ''finishe''" | "kw = ascii ''done''"
    by (auto simp: done_keywords_def)
  then show ?thesis
    using assms(3) by cases (auto simp: ascii_def list_all2_Cons1 intro: letters)
qed


lemma word_after_append: "w \<noteq> [] \<Longrightarrow> word_after A (w @ post) = isword A (hd w)"
  by (cases w) simp_all

lemma first_done_pattern_matches:
  assumes A: "isalnum_ok A" and kw: "kw \<in> set done_keywords" and w: "list_all2 ci_eq kw w"
    and before: "\<not> word_before A q" and after: "\<not> word_after A post"
  shows "match_at A (done_patterns ! 0) (q, w @ post) \<noteq> None"
proof -
  let ?k = "\<lambda>st'. rmatch A (seq [Bnd]) st' (Some :: pos \<Rightarrow> pos option)"
  let ?words = "Or completed_opt (Or finished_opt (str (ascii ''done'')))"
  from keyword_ends[OF A kw w] have ends: "w \<noteq> []" "isword A (hd w)" "isword A (last w)"
    by simp_all
  from ends(1,3) after have k: "?k (last_opt q w, post) = Some (last_opt q w, post)"
    by (rule closing_boundary)
  from keyword_shape[OF kw w] consider
      (kw_completed) w1 where "list_all2 ci_eq (ascii ''complete'') w1"
        "w = w1 \<or> (\<exists>x. w = w1 @ [x] \<and> ci_eq 100 x)"
    | (kw_finished) w1 where "list_all2 ci_eq (ascii ''finishe'') w1"
        "w = w1 \<or> (\<exists>x. w = w1 @ [x] \<and> ci_eq 100 x)"
    | (kw_done) "list_all2 ci_eq (ascii ''done'') w"
    by blast
  then have words: "rmatch A ?words (q, w @ post) ?k \<noteq> None"
  proof cases
    case kw_completed
    then have "rmatch A completed_opt (q, w @ post) ?k \<noteq> None"
      unfolding completed_opt_def of_char_d using k by (rule opt_d_match[where k = "?k"])
    then show ?thesis by (rule Or_left)
  next
    case kw_finished
    then have "rmatch A finished_opt (q, w @ post) ?k \<noteq> None"
      unfolding finished_opt_def of_char_d using k by (rule opt_d_match[where k = "?k"])
    then show ?thesis by (intro Or_right Or_left)
  next
    case kw_done
    then have "rmatch A (str (ascii ''done'')) (q, w @ post) ?k \<noteq> None"
      using k by (simp only: str_match) simp
    then show ?thesis by (intro Or_right)
  qed
  have "at_boundary A (q, w @ post)"
    using before ends by (simp add: at_boundary_def word_after_append)
  with words show ?thesis
    by (simp add: done_patterns_def match_at_def del: str.simps)
qed

lemma keyword_is_done:
  assumes "isalnum_ok A" and "kw \<in> set done_keywords" and "list_all2 ci_eq kw w"
    and "strip text = pre @ w @ post"
    and "\<not> word_before A (last_opt None pre)" and "\<not> word_after A post"
  shows "snd (parse_message A text) = STATUS_DONE"
proof -
  from first_done_pattern_matches[OF assms(1,2,3,5,6)]
  obtain m where "match_at A (done_patterns ! 0) (last_opt None pre, w @ post) = Some m"
    by blast
  then have "search_from A (done_patterns ! 0) None (pre @ w @ post)"
    by (rule search_from_complete)
  with assms(4) have "re_search A (done_patterns ! 0) (strip text)"
    by (simp add: re_search_def)
  then have "any_search A done_patterns (strip text)"
    by (simp add: done_patterns_def)
  then show ?thesis by (rule done_list_first)
qed

text \<open>
  The same for the in-progress keywords, in a text that the done list does not match.
  A casing of \<^verbatim>\<open>started\<close> or \<^verbatim>\<open>in progress\<close> may begin or end with a letter
  outside ASCII, of which \<open>isalnum_ok\<close> says nothing: that the word begins and ends
  with word characters is asked here.
\<close>

lemma first_progress_pattern_matches:
  assumes kw: "kw \<in> set progress_keywords" and w: "list_all2 ci_eq kw w"
    and ends: "isword A (hd w)" "isword A (last w)"
    and before: "\<not> word_before A q" and after: "\<not> word_after A post"
  shows "match_at A (progress_patterns ! 0) (q, w @ post) \<noteq> None"
proof -
  let ?k = "\<lambda>st'. rmatch A (seq [Bnd]) st' (Some :: pos \<Rightarrow> pos option)"
  let ?words = "Or (str (ascii ''working on'')) (Or (str (ascii ''started''))
      (Or (str (ascii ''begun'')) (str (ascii ''in progress''))))"
  from kw w have ne: "w \<noteq> []"
    by (auto simp: progress_keywords_def ascii_def)
  from ne ends(2) after have k: "?k (last_opt q w, post) = Some (last_opt q w, post)"
    by (rule closing_boundary)
  from w k have here: "rmatch A (str kw) (q, w @ post) ?k \<noteq> None"
    by (simp only: str_match) simp
  from kw consider "kw = ascii ''working on''" | "kw = ascii ''started''"
    | "kw = ascii ''begun''" | "kw = ascii ''in progress''"
    by (auto simp: progress_keywords_def)
  then have words: "rmatch A ?words (q, w @ post) ?k \<noteq> None"
  proof cases
    case 1
    with here show ?thesis by (intro Or_left) simp
  next
    case 2
    with here show ?thesis by (intro Or_right Or_left) simp
  next
    case 3
    with here show ?thesis by (intro Or_right Or_left) simp
  next
    case 4
    with here show ?thesis by (intro Or_right) simp
  qed
  have "at_boundary A (q, w @ post)"
    using before ends(1) ne by (simp add: at_boundary_def word_after_append)
  with words show ?thesis
    by (simp add: progress_patterns_def match_at_def del: str.simps)
qed

lemma keyword_is_in_progress:
  assumes "kw \<in> set progress_keywords" and "list_all2 ci_eq kw w"
    and "isword A (hd w)" and "isword A (last w)"
    and "strip text = pre @ w @ post"
    and "\<not> word_before A (last_opt None pre)" and "\<not> word_after A post"
    and "\<not> any_search A done_patterns (strip text)"
  shows "snd (parse_message A text) = STATUS_IN_PROGRESS"
proof -
  from first_progress_pattern_matches[OF assms(1,2,3,4,6,7)]
  obtain m where "match_at A (progress_patterns ! 0) (last_opt None pre, w @ post) = Some m"
    by blast
  then have "search_from A (progress_patterns ! 0) None (pre @ w @ post)"
    by (rule search_from_complete)
  with assms(5) have "re_search A (progress_patterns ! 0) (strip text)"
    by (simp add: re_search_def)
  then have "any_search A progress_patterns (strip text)"
    by (simp add: progress_patterns_def)
  with assms(8) show ?thesis by (rule progress_list_second)
qed

text \<open>
  C1. Claimed: every text with a done indicator (one of the keywords completed, complete,
  finished, finish, done as a whole word, or one of the three check glyphs) is classified
  \<^verbatim>\<open>Done\<close> with the indicator removed from the description, and the text made of
  U+2705 and "client meeting" gives the description "client meeting". The source does
  otherwise on two of the listed indicators. A glyph is not a word character, so
  \<^verbatim>\<open>\b\<close> before it holds only after a word character: at the start of the text,
  or after a space, no glyph pattern matches, nothing is removed, and the text comes back
  whole through the fallback. And \<^verbatim>\<open>finished?\<close> does not match the word
  \<^verbatim>\<open>finish\<close>, which is left in the description as well.
\<close>

theorem check_mark_not_removed:
  assumes "isalnum_ok A"
  shows "parse_message A (CHECK_MARK_BUTTON # ascii '' client meeting'')
           = (CHECK_MARK_BUTTON # ascii '' client meeting'', STATUS_DONE)
       \<and> parse_message A (ascii ''finish the report'')
           = (ascii ''finish the report'', STATUS_DONE)"
  using isalnum_ok_glyphs[OF assms]
  by (simp add: run_defs isalnum_ok_ascii[OF assms])

theorem check_mark_not_removed_witness:
  "isalnum_ok ascii_isalnum
   \<and> parse_message ascii_isalnum (CHECK_MARK_BUTTON # ascii '' client meeting'')
       = (CHECK_MARK_BUTTON # ascii '' client meeting'', STATUS_DONE)
   \<and> parse_message ascii_isalnum (ascii ''finish the report'')
       = (ascii ''finish the report'', STATUS_DONE)"
  using isalnum_ok_ascii_isalnum check_mark_not_removed[OF isalnum_ok_ascii_isalnum]
  by simp

text \<open>
  C2. Claimed: every text with an in-progress indicator (working on, started, begun, in
  progress, or one of the glyphs U+1F504 and U+23F3) and no done indicator is classified
  \<^verbatim>\<open>In Progress\<close> with the indicator removed. For the keywords the source does so
  (\<open>keyword_is_in_progress\<close>, \<open>working_on_project_planning\<close>). For a glyph that opens the text it does not: the
  glyph pattern sits between two \<^verbatim>\<open>\b\<close>, neither of which holds beside a space or
  an end of the text, so the text falls through to \<^verbatim>\<open>Done\<close> with the glyph kept.
\<close>

theorem arrows_button_not_in_progress:
  assumes "isalnum_ok A"
  shows "parse_message A (ARROWS_BUTTON # ascii '' refactoring the parser'')
           = (ARROWS_BUTTON # ascii '' refactoring the parser'', STATUS_DONE)"
  using isalnum_ok_glyphs[OF assms]
  by (simp add: run_defs isalnum_ok_ascii[OF assms])

theorem arrows_button_not_in_progress_witness:
  "isalnum_ok ascii_isalnum
   \<and> parse_message ascii_isalnum (ARROWS_BUTTON # ascii '' refactoring the parser'')
       = (ARROWS_BUTTON # ascii '' refactoring the parser'', STATUS_DONE)"
  using isalnum_ok_ascii_isalnum arrows_button_not_in_progress[OF isalnum_ok_ascii_isalnum]
  by simp

text \<open>
  C6. The status that \<^verbatim>\<open>parse_message\<close> returns is one of the two strings
  \<^verbatim>\<open>Done\<close> and \<^verbatim>\<open>In Progress\<close>, for every text and every character table.
\<close>

theorem parse_message_status:
  "snd (parse_message A text) = STATUS_DONE \<or> snd (parse_message A text) = STATUS_IN_PROGRESS"
  by (simp add: parse_message_def Let_def)

theorem parse_message_status_witness:
  "snd (parse_message ascii_isalnum (ascii ''Started code review'')) = STATUS_IN_PROGRESS"
proof -
  have "snd (parse_message ascii_isalnum (ascii ''Started code review'')) \<noteq> STATUS_DONE"
    by (simp add: run_defs)
  with parse_message_status[of ascii_isalnum "ascii ''Started code review''"]
  show ?thesis by blast
qed

text \<open>
  C7. Claimed: a text with both a done keyword and an in-progress keyword is classified
  \<^verbatim>\<open>Done\<close>. The done list is indeed searched first, and a text with one of
  completed, complete, finished and done is \<^verbatim>\<open>Done\<close> whatever else it holds
  (\<open>done_list_first\<close>, \<open>keyword_is_done\<close>), but the keyword \<^verbatim>\<open>finish\<close> is
  not in the list: the pattern \<^verbatim>\<open>finished?\<close> needs the
  \<^verbatim>\<open>e\<close>. A text with \<^verbatim>\<open>finish\<close> and \<^verbatim>\<open>started\<close> is classified
  \<^verbatim>\<open>In Progress\<close>.
\<close>

theorem finish_loses_to_started:
  assumes "isalnum_ok A"
  shows "parse_message A (ascii ''finish what I started'')
           = (ascii ''finish what I'', STATUS_IN_PROGRESS)"
  by (simp add: run_defs isalnum_ok_ascii[OF assms])

theorem finish_loses_to_started_witness:
  "isalnum_ok ascii_isalnum
   \<and> parse_message ascii_isalnum (ascii ''finish what I started'')
       = (ascii ''finish what I'', STATUS_IN_PROGRESS)"
  using isalnum_ok_ascii_isalnum finish_loses_to_started[OF isalnum_ok_ascii_isalnum]
  by simp

text \<open>The last \<^verbatim>\<open>return\<close>: a text in which neither list finds a match comes back
  trimmed and otherwise unchanged.\<close>

lemma no_match_fallback:
  assumes "\<not> any_search A done_patterns (strip text)"
    and "\<not> any_search A progress_patterns (strip text)"
  shows "parse_message A text = (strip text, STATUS_DONE)"
  using assms by (simp add: parse_message_def)

text \<open>
  C8. Claimed: a text that matches neither the done indicators nor the in-progress
  indicators comes back trimmed and unchanged, with the status \<^verbatim>\<open>Done\<close>. Where
  neither pattern list of the source finds a match that is what happens
  (\<open>no_match_fallback\<close>, \<open>no_token_no_match\<close>). But the done list of the source
  accepts the word \<^verbatim>\<open>finishe\<close>, which is none of the indicators: the text
  "finishe the work" holds no whole word completed, complete, finished, finish or done,
  no glyph and no in-progress keyword, and still loses its first word.
\<close>

theorem finishe_is_removed:
  assumes "isalnum_ok A"
  shows "parse_message A (ascii ''finishe the work'') = (ascii ''the work'', STATUS_DONE)"
  by (simp add: run_defs isalnum_ok_ascii[OF assms])

theorem finishe_is_removed_witness:
  "isalnum_ok ascii_isalnum
   \<and> parse_message ascii_isalnum (ascii ''finishe the work'')
       = (ascii ''the work'', STATUS_DONE)"
  using isalnum_ok_ascii_isalnum finishe_is_removed[OF isalnum_ok_ascii_isalnum]
  by simp



text \<open>
  C10. The removal pattern has \<^verbatim>\<open>\b\<close> before the keyword and none after it. In
  "completed doneness check" the first done pattern finds the whole word
  \<^verbatim>\<open>completed\<close>; the removal then also takes the \<^verbatim>\<open>done\<close> that opens
  \<^verbatim>\<open>doneness\<close>, and the description is "ness check". Alone, "doneness check" is
  not touched.
\<close>

theorem keyword_prefix_removed:
  assumes "isalnum_ok A"
  shows "re_search A (done_patterns ! 0) (ascii ''completed doneness check'')
       \<and> parse_message A (ascii ''completed doneness check'')
           = (ascii ''ness check'', STATUS_DONE)
       \<and> parse_message A (ascii ''doneness check'') = (ascii ''doneness check'', STATUS_DONE)"
  by (simp add: run_defs isalnum_ok_ascii[OF assms])

theorem keyword_prefix_removed_witness:
  "isalnum_ok ascii_isalnum
   \<and> re_search ascii_isalnum (done_patterns ! 0) (ascii ''completed doneness check'')
   \<and> parse_message ascii_isalnum (ascii ''completed doneness check'')
       = (ascii ''ness check'', STATUS_DONE)
   \<and> parse_message ascii_isalnum (ascii ''doneness check'')
       = (ascii ''doneness check'', STATUS_DONE)"
  using isalnum_ok_ascii_isalnum keyword_prefix_removed[OF isalnum_ok_ascii_isalnum]
  by simp

section \<open>Printing the date, the time and the row\<close>

lemma str_nat_1: "n < 10 \<Longrightarrow> str_nat n = [48 + n]"
  by (simp add: str_nat.simps)

lemma str_nat_step: "10 \<le> n \<Longrightarrow> str_nat n = str_nat (n div 10) @ [48 + n mod 10]"
  by (subst str_nat.simps) simp

lemma str_nat_2: "10 \<le> n \<Longrightarrow> n < 100 \<Longrightarrow> str_nat n = [48 + n div 10, 48 + n mod 10]"
proof -
  assume n: "10 \<le> n" "n < 100"
  then have "str_nat (n div 10) = [48 + n div 10]" by (intro str_nat_1) simp
  with n show ?thesis by (simp only: str_nat_step append_Cons append_Nil)
qed

lemma str_nat_3:
  "100 \<le> n \<Longrightarrow> n < 1000 \<Longrightarrow>
     str_nat n = [48 + n div 10 div 10, 48 + n div 10 mod 10, 48 + n mod 10]"
proof -
  assume n: "100 \<le> n" "n < 1000"
  then have "str_nat (n div 10) = [48 + n div 10 div 10, 48 + n div 10 mod 10]"
    by (intro str_nat_2) simp_all
  moreover from n have "10 \<le> n" by simp
  ultimately show ?thesis by (simp only: str_nat_step append_Cons append_Nil)
qed

lemma str_nat_4:
  "1000 \<le> n \<Longrightarrow> n < 10000 \<Longrightarrow>
     str_nat n =
       [48 + n div 10 div 10 div 10, 48 + n div 10 div 10 mod 10, 48 + n div 10 mod 10,
        48 + n mod 10]"
proof -
  assume n: "1000 \<le> n" "n < 10000"
  then have "str_nat (n div 10) =
      [48 + n div 10 div 10 div 10, 48 + n div 10 div 10 mod 10, 48 + n div 10 mod 10]"
    by (intro str_nat_3) simp_all
  moreover from n have "10 \<le> n" by simp
  ultimately show ?thesis by (simp only: str_nat_step append_Cons append_Nil)
qed

lemma zero_pad2_eq: "n < 100 \<Longrightarrow> zero_pad2 n = [48 + n div 10, 48 + n mod 10]"
  by (simp add: zero_pad2_def str_nat_1 str_nat_2)

lemma digits_val_snoc: "digits_val (s @ [c]) = 10 * digits_val s + (c - 48)"
  by (simp add: digits_val_def)

text \<open>Reading a printed number back gives the number.\<close>

lemma digits_val_str_nat: "digits_val (str_nat n) = n"
proof (induction n rule: str_nat.induct)
  case (1 n)
  show ?case
  proof (cases "n < 10")
    case True
    then show ?thesis by (simp add: str_nat_1 digits_val_def)
  next
    case False
    with 1 show ?thesis by (simp add: str_nat_step digits_val_snoc)
  qed
qed

lemma digits_val_zero_pad2: "digits_val (zero_pad2 n) = n"
proof (cases "n < 10")
  case True
  then show ?thesis by (simp add: zero_pad2_def str_nat_1 digits_val_def)
next
  case False
  then show ?thesis by (simp add: zero_pad2_def digits_val_str_nat)
qed

lemma str_nat_nonempty: "str_nat n \<noteq> []"
  by (subst str_nat.simps) simp

lemma mod10_digit: "is_digit (48 + n mod 10)"
  by (simp add: is_digit_def)

lemma str_nat_digits: "list_all is_digit (str_nat n)"
proof (induction n rule: str_nat.induct)
  case (1 n)
  show ?case
  proof (cases "n < 10")
    case True
    then show ?thesis by (simp add: str_nat_1 is_digit_def)
  next
    case False
    with 1 show ?thesis by (simp add: str_nat_step mod10_digit)
  qed
qed

lemma str_nat_no_leading_zero: "0 < n \<Longrightarrow> hd (str_nat n) \<noteq> 48"
proof (induction n rule: str_nat.induct)
  case (1 n)
  show ?case
  proof (cases "n < 10")
    case True
    with 1(2) show ?thesis by (simp add: str_nat_1)
  next
    case False
    then have "0 < n div 10" by simp
    with 1(1) False have "hd (str_nat (n div 10)) \<noteq> 48" by simp
    with False show ?thesis by (simp add: str_nat_step str_nat_nonempty)
  qed
qed

text \<open>
  What the range names: column A to column E of one row, whose number is printed in
  decimal, without a leading zero, and reads back as the number.
\<close>

lemma row_range_reads_back:
  "\<exists>ds. row_range n = ascii ''A'' @ ds @ ascii '':E'' @ ds
        \<and> ds \<noteq> [] \<and> list_all is_digit ds \<and> (0 < n \<longrightarrow> hd ds \<noteq> 48) \<and> digits_val ds = n"
  unfolding row_range_def
  using str_nat_nonempty[of n] str_nat_digits[of n] str_nat_no_leading_zero[of n]
    digits_val_str_nat[of n]
  by blast

lemma digit_le: "n < 100 \<Longrightarrow> n div 10 \<le> (9::nat)"
  by simp

lemma digit4_le: "n < 10000 \<Longrightarrow> n div 10 div 10 div 10 \<le> (9::nat)"
  by simp

lemma mod10_le: "n mod 10 \<le> (9::nat)"
  by simp

lemma date_str_shape:
  assumes "clock_ok now"
  shows "has_shape ''dddd-dd-dd'' (date_str now)"
  using assms
  by (simp add: clock_ok_def date_str_def str_nat_4 zero_pad2_eq ascii_def is_digit_def
      digit_le digit4_le mod10_le)

lemma date_str_fields:
  assumes "clock_ok now"
  shows "digits_val (take 4 (date_str now)) = year now
     \<and> digits_val (take 2 (drop 5 (date_str now))) = month now
     \<and> digits_val (drop 8 (date_str now)) = day now"
proof -
  from assms have y: "length (str_nat (year now)) = 4"
    by (simp add: clock_ok_def str_nat_4)
  from assms have m: "length (zero_pad2 (month now)) = 2"
    by (simp add: clock_ok_def zero_pad2_eq)
  show ?thesis
    by (simp add: date_str_def ascii_def y m digits_val_str_nat digits_val_zero_pad2)
qed

lemma time_str_shape:
  assumes "clock_ok now"
  shows "has_shape ''dd:dd'' (time_str now)"
  using assms
  by (simp add: clock_ok_def time_str_def zero_pad2_eq ascii_def is_digit_def
      digit_le mod10_le)

lemma time_str_fields:
  assumes "clock_ok now"
  shows "digits_val (take 2 (time_str now)) = hour now
     \<and> digits_val (drop 3 (time_str now)) = minute now"
proof -
  from assms have h: "length (zero_pad2 (hour now)) = 2"
    by (simp add: clock_ok_def zero_pad2_eq)
  show ?thesis
    by (simp add: time_str_def ascii_def h digits_val_zero_pad2)
qed

section \<open>The manager\<close>

lemma add_task_try_True:
  assumes "add_task_try (Some ws) now task_text status \<sigma> = (Inr True, \<sigma>')"
  shows "\<exists>vals. get_all_values ws (remote \<sigma>) = Inr vals
           \<and> update ws (row_range (length vals + 1))
                [[date_str now, time_str now, task_text, status, []]] (remote \<sigma>)
               = (None, remote \<sigma>')
           \<and> logged \<sigma>' = logged \<sigma> @ [Info_task_added task_text] \<and> sent \<sigma>' = sent \<sigma>"
  using assms
  by (auto simp: add_task_try_def log_def Let_def split: sum.splits option.splits prod.splits)

lemma add_task_True_try:
  "add_task sheet now task_text status \<sigma> = (Inr True, \<sigma>')
     \<Longrightarrow> add_task_try sheet now task_text status \<sigma> = (Inr True, \<sigma>')"
  by (auto simp: add_task_def split: prod.splits sum.splits)

lemmas store_defs = add_task_def add_task_try_def setup_headers_def setup_sheet_def log_def
  reply_text_def mem_sheet_def down_sheet_def readonly_sheet_def io0_def noon_def row_range_def
  date_str_def time_str_def zero_pad2_def HEADERS_def ascii_def STATUS_DONE_def digits_val_def
  is_digit_def put_row_def

lemma put_row_next: "n = Suc (length w) \<Longrightarrow> put_row n r w = w @ [r]"
  by (simp add: put_row_def)

lemma mem_sheet_update_13:
  "update mem_sheet (ascii ''A13:E13'') [r] twelve_rows = (None, twelve_rows @ [r])"
proof -
  have "digits_val (takeWhile is_digit (drop 1 (ascii ''A13:E13''))) = 13"
    by (simp add: ascii_def is_digit_def digits_val_def)
  moreover have "length twelve_rows = 12"
    by (simp add: twelve_rows_def)
  ultimately show ?thesis
    by (simp add: mem_sheet_def put_row_next)
qed

lemma row_range_13: "row_range (Suc (length twelve_rows)) = ascii ''A13:E13''"
  by (simp add: row_range_def twelve_rows_def str_nat_2 ascii_def)

lemma noon_strs: "date_str noon = ascii ''2025-05-21''" "time_str noon = ascii ''09:05''"
  by (simp_all add: date_str_def time_str_def zero_pad2_def noon_def str_nat_1 str_nat_2
      str_nat_4 ascii_def)

text \<open>
  C3. When \<^verbatim>\<open>add_task\<close> on a connected manager returns \<^verbatim>\<open>True\<close>, it has read
  all values of the sheet and issued one \<^verbatim>\<open>update\<close>, which did not raise, with the
  one row of date, time, task, status and the empty string. The range of that
  \<^verbatim>\<open>update\<close> is the letter A, a row number, a colon, the letter E and the same row
  number; the row number is in decimal digits without a leading zero and is one more than
  the count of the rows read. The sheet is then what that \<^verbatim>\<open>update\<close> left, and the
  log has the one new record. For a wall clock in range the date is four digits, a dash,
  two digits, a dash, two digits, which read back as year, month and day; the time is two
  digits, a colon, two digits, which read back as the hour (of 24) and the minute.
\<close>

theorem add_task_writes_next_row:
  assumes "add_task (Some ws) now task_text status \<sigma> = (Inr True, \<sigma>')"
  shows "(\<exists>vals. get_all_values ws (remote \<sigma>) = Inr vals
           \<and> update ws (row_range (length vals + 1))
                [[date_str now, time_str now, task_text, status, []]] (remote \<sigma>)
               = (None, remote \<sigma>')
           \<and> (\<exists>ds. row_range (length vals + 1) = ascii ''A'' @ ds @ ascii '':E'' @ ds
                  \<and> ds \<noteq> [] \<and> list_all is_digit ds \<and> hd ds \<noteq> 48
                  \<and> digits_val ds = length vals + 1)
           \<and> logged \<sigma>' = logged \<sigma> @ [Info_task_added task_text] \<and> sent \<sigma>' = sent \<sigma>)
       \<and> (clock_ok now \<longrightarrow>
            has_shape ''dddd-dd-dd'' (date_str now)
            \<and> digits_val (take 4 (date_str now)) = year now
            \<and> digits_val (take 2 (drop 5 (date_str now))) = month now
            \<and> digits_val (drop 8 (date_str now)) = day now
            \<and> has_shape ''dd:dd'' (time_str now)
            \<and> digits_val (take 2 (time_str now)) = hour now
            \<and> digits_val (drop 3 (time_str now)) = minute now)"
proof (intro conjI impI)
  from assms obtain vals where vals: "get_all_values ws (remote \<sigma>) = Inr vals"
    "update ws (row_range (length vals + 1))
       [[date_str now, time_str now, task_text, status, []]] (remote \<sigma>) = (None, remote \<sigma>')"
    "logged \<sigma>' = logged \<sigma> @ [Info_task_added task_text]" "sent \<sigma>' = sent \<sigma>"
    by (blast dest: add_task_True_try add_task_try_True)
  from row_range_reads_back[of "length vals + 1"]
  have "\<exists>ds. row_range (length vals + 1) = ascii ''A'' @ ds @ ascii '':E'' @ ds
          \<and> ds \<noteq> [] \<and> list_all is_digit ds \<and> hd ds \<noteq> 48 \<and> digits_val ds = length vals + 1"
    by simp
  with vals show "\<exists>vals. get_all_values ws (remote \<sigma>) = Inr vals
           \<and> update ws (row_range (length vals + 1))
                [[date_str now, time_str now, task_text, status, []]] (remote \<sigma>)
               = (None, remote \<sigma>')
           \<and> (\<exists>ds. row_range (length vals + 1) = ascii ''A'' @ ds @ ascii '':E'' @ ds
                  \<and> ds \<noteq> [] \<and> list_all is_digit ds \<and> hd ds \<noteq> 48
                  \<and> digits_val ds = length vals + 1)
           \<and> logged \<sigma>' = logged \<sigma> @ [Info_task_added task_text] \<and> sent \<sigma>' = sent \<sigma>"
    by blast
qed (simp_all add: date_str_shape date_str_fields time_str_shape time_str_fields)

theorem add_task_writes_next_row_witness:
  "add_task (Some mem_sheet) noon (ascii ''x'') STATUS_DONE (io0 [HEADERS]) = (Inr True, after_x)
   \<and> clock_ok noon
   \<and> get_all_values mem_sheet (remote (io0 [HEADERS])) = Inr [HEADERS]
   \<and> update mem_sheet (ascii ''A2:E2'')
        [[ascii ''2025-05-21'', ascii ''09:05'', ascii ''x'', STATUS_DONE, []]]
        (remote (io0 [HEADERS])) = (None, remote after_x)
   \<and> has_shape ''dddd-dd-dd'' (date_str noon)
   \<and> has_shape ''dd:dd'' (time_str noon)
   \<and> add_task (Some mem_sheet) noon (ascii ''x'') STATUS_DONE (io0 twelve_rows)
       = (Inr True, after_13)
   \<and> get_all_values mem_sheet (remote (io0 twelve_rows)) = Inr twelve_rows
   \<and> update mem_sheet (ascii ''A13:E13'')
        [[ascii ''2025-05-21'', ascii ''09:05'', ascii ''x'', STATUS_DONE, []]]
        (remote (io0 twelve_rows)) = (None, remote after_13)"
proof -
  have h: "add_task (Some mem_sheet) noon (ascii ''x'') STATUS_DONE (io0 [HEADERS])
      = (Inr True, after_x)"
    by (simp add: store_defs after_x_def str_nat_1 str_nat_2 str_nat_4)
  have c: "clock_ok noon"
    by (simp add: clock_ok_def noon_def)
  have g: "get_all_values mem_sheet (remote (io0 [HEADERS])) = Inr [HEADERS]"
    by (simp add: mem_sheet_def io0_def)
  have r: "row_range (length [HEADERS] + 1) = ascii ''A2:E2''"
    by (simp add: row_range_def str_nat_1 ascii_def)
  have g13: "get_all_values mem_sheet (remote (io0 twelve_rows)) = Inr twelve_rows"
    by (simp add: mem_sheet_def io0_def)
  have h13: "add_task (Some mem_sheet) noon (ascii ''x'') STATUS_DONE (io0 twelve_rows)
      = (Inr True, after_13)"
    using g13
    by (simp add: add_task_def add_task_try_def io0_def row_range_13 noon_strs
        mem_sheet_update_13 log_def after_13_def)
  from add_task_writes_next_row[OF h] c g r noon_strs
  have first: "update mem_sheet (ascii ''A2:E2'')
        [[ascii ''2025-05-21'', ascii ''09:05'', ascii ''x'', STATUS_DONE, []]]
        (remote (io0 [HEADERS])) = (None, remote after_x)"
    and shapes: "has_shape ''dddd-dd-dd'' (date_str noon)" "has_shape ''dd:dd'' (time_str noon)"
    by auto
  from add_task_writes_next_row[OF h13] g13 row_range_13 noon_strs
  have second: "update mem_sheet (ascii ''A13:E13'')
        [[ascii ''2025-05-21'', ascii ''09:05'', ascii ''x'', STATUS_DONE, []]]
        (remote (io0 twelve_rows)) = (None, remote after_13)"
    by auto
  from h c g first shapes h13 g13 second show ?thesis by (intro conjI)
qed



text \<open>
  C5. \<^verbatim>\<open>setup_headers\<close> leaves everything as it is when the first row has four
  cells or more. The only write it ever issues is the header row to \<^verbatim>\<open>A1:E1\<close>, and
  only after reading a first row of fewer than four cells. Where that write does not
  raise and the sheet then reads the header back in its first row, a second call changes
  nothing on the sheet.
\<close>

theorem setup_headers_idempotent:
  "(row_values ws 1 (remote \<sigma>) = Inr hs \<and> 4 \<le> length hs \<longrightarrow> setup_headers (Some ws) \<sigma> = \<sigma>)
   \<and> (remote (setup_headers (Some ws) \<sigma>) = remote \<sigma>
       \<or> (\<exists>hs'. row_values ws 1 (remote \<sigma>) = Inr hs' \<and> length hs' < 4)
          \<and> remote (setup_headers (Some ws) \<sigma>)
              = snd (update ws (ascii ''A1:E1'') [HEADERS] (remote \<sigma>)))
   \<and> (fst (update ws (ascii ''A1:E1'') [HEADERS] (remote \<sigma>)) = None
       \<and> row_values ws 1 (snd (update ws (ascii ''A1:E1'') [HEADERS] (remote \<sigma>))) = Inr HEADERS
       \<longrightarrow> remote (setup_headers (Some ws) (setup_headers (Some ws) \<sigma>))
            = remote (setup_headers (Some ws) \<sigma>))"
  by (auto simp: setup_headers_def log_def HEADERS_def split: sum.splits option.splits prod.splits)

theorem setup_headers_idempotent_witness:
  "row_values mem_sheet 1 (remote (io0 [HEADERS])) = Inr HEADERS
   \<and> 4 \<le> length HEADERS
   \<and> setup_headers (Some mem_sheet) (io0 [HEADERS]) = io0 [HEADERS]
   \<and> fst (update mem_sheet (ascii ''A1:E1'') [HEADERS] (remote (io0 []))) = None
   \<and> row_values mem_sheet 1 (snd (update mem_sheet (ascii ''A1:E1'') [HEADERS] (remote (io0 []))))
       = Inr HEADERS
   \<and> remote (setup_headers (Some mem_sheet) (io0 [])) = [HEADERS]
   \<and> remote (setup_headers (Some mem_sheet) (setup_headers (Some mem_sheet) (io0 [])))
       = remote (setup_headers (Some mem_sheet) (io0 []))"
proof -
  note valid = setup_headers_idempotent[of mem_sheet "io0 [HEADERS]" HEADERS]
  note absent = setup_headers_idempotent[of mem_sheet "io0 []"]
  have a: "row_values mem_sheet 1 (remote (io0 [HEADERS])) = Inr HEADERS"
    by (simp add: mem_sheet_def io0_def)
  have b: "4 \<le> length HEADERS"
    by (simp add: HEADERS_def)
  have u: "update mem_sheet (ascii ''A1:E1'') [HEADERS] (remote (io0 [])) = (None, [HEADERS])"
    by (simp add: mem_sheet_def io0_def ascii_def is_digit_def digits_val_def put_row_def)
  have c: "fst (update mem_sheet (ascii ''A1:E1'') [HEADERS] (remote (io0 []))) = None"
    by (simp add: u)
  have d: "row_values mem_sheet 1
      (snd (update mem_sheet (ascii ''A1:E1'') [HEADERS] (remote (io0 [])))) = Inr HEADERS"
    by (simp add: u) (simp add: mem_sheet_def)
  have e: "remote (setup_headers (Some mem_sheet) (io0 [])) = [HEADERS]"
    by (simp add: setup_headers_def log_def mem_sheet_def io0_def ascii_def is_digit_def
        digits_val_def put_row_def)
  from valid a b have v: "setup_headers (Some mem_sheet) (io0 [HEADERS]) = io0 [HEADERS]"
    by blast
  from absent c d have i: "remote (setup_headers (Some mem_sheet)
      (setup_headers (Some mem_sheet) (io0 []))) = remote (setup_headers (Some mem_sheet) (io0 []))"
    by blast
  from a b v c d e i show ?thesis by (intro conjI)
qed


end
